theory Spec2Isabelle
  imports Complex_Main
begin

section \<open>Four-bar workspace animation: a model of \<open>static/plot.js\<close>\<close>

text \<open>
  The file \<open>static/plot.js\<close> holds one function, \<open>runAnimation\<close>. It fetches the
  solver's response \<open>data\<close> (four arrays \<open>A\<close>, \<open>B\<close>, \<open>C\<close>, \<open>D\<close> of \<open>[x, y]\<close> pairs),
  computes bounds, builds one Plotly frame per index of \<open>data.A\<close>, draws the first frame
  and starts a self-restarting animation. The model starts from \<open>data\<close>: the form
  fields and the request to \<open>/solve\<close> are outside it.

  Numbers are IEEE doubles. A finite double is kept as the real number it denotes, and
  \<open>Infinity\<close>, \<open>-Infinity\<close> and \<open>NaN\<close> are values of their own. Every addition and
  multiplication of finite numbers rounds its exact result to the nearest double, ties
  to the even mantissa, and overflows to an infinity, as the operators of JavaScript do.
  The two zeros are not told apart.
\<close>

subsection \<open>Numbers\<close>

datatype jsnum = Fin real | PInf | NInf | NaN

fun jneg :: "jsnum \<Rightarrow> jsnum" where
  "jneg (Fin a) = Fin (- a)"
| "jneg PInf = NInf"
| "jneg NInf = PInf"
| "jneg NaN = NaN"

text \<open>
  Rounding to the nearest integer, ties to the even one: the rounding of a mantissa.
\<close>

definition round_even :: "real \<Rightarrow> int" where
  "round_even y =
     (let f = \<lfloor>y\<rfloor> in
      if y - of_int f < 1 / 2 then f
      else if 1 / 2 < y - of_int f then f + 1
      else if even f then f else f + 1)"

text \<open>
  The doubles are the numbers \<open>m * 2 ^ n / 2 ^ 1074\<close> with an integer \<open>\<bar>m\<bar> < 2 ^ 53\<close> and
  \<open>n \<le> 2045\<close>. For \<open>X = x * 2 ^ 1074\<close> with \<open>x \<ge> 0\<close>, \<open>grid_exp 0 X\<close> is the exponent
  \<open>n\<close> of the spacing of the doubles around \<open>x\<close>: the least \<open>n\<close> with \<open>X < 2 ^ (n + 53)\<close>,
  and \<open>2045\<close> from the largest binade on.
\<close>

function grid_exp :: "nat \<Rightarrow> real \<Rightarrow> nat" where
  "grid_exp n X = (if n < 2045 \<and> 2 ^ (n + 53) \<le> X then grid_exp (Suc n) X else n)"
  by pat_completeness auto
termination
  by (relation "measure (\<lambda>(n, X). 2045 - n)") auto

declare grid_exp.simps [simp del]

text \<open>
  The double nearest to a real \<open>x \<ge> 0\<close>: \<open>rd_val\<close> rounds the mantissa on the grid of
  \<open>x\<close>, and a result of \<open>2 ^ 1024\<close> or more is \<open>Infinity\<close>.
\<close>

definition rd_val :: "real \<Rightarrow> real" where
  "rd_val x =
     (let X = x * 2 ^ 1074;
          n = grid_exp 0 X
      in of_int (round_even (X / 2 ^ n)) * 2 ^ n / 2 ^ 1074)"

definition rd_pos :: "real \<Rightarrow> jsnum" where
  "rd_pos x = (let r = rd_val x in if 2 ^ 1024 \<le> r then PInf else Fin r)"

definition round_double :: "real \<Rightarrow> jsnum" where
  "round_double x = (if 0 \<le> x then rd_pos x else jneg (rd_pos (- x)))"

text \<open>A decimal literal of the source denotes the double nearest to it.\<close>

definition lit :: "real \<Rightarrow> jsnum" where
  "lit x = round_double x"

text \<open>A real number is a double when rounding leaves it as it is.\<close>

definition is_double :: "real \<Rightarrow> bool" where
  "is_double x \<longleftrightarrow> round_double x = Fin x"

text \<open>The operators \<open>+\<close>, \<open>-\<close> and \<open>*\<close>.\<close>

fun jadd :: "jsnum \<Rightarrow> jsnum \<Rightarrow> jsnum" where
  "jadd (Fin a) (Fin b) = round_double (a + b)"
| "jadd NaN _ = NaN"
| "jadd _ NaN = NaN"
| "jadd PInf NInf = NaN"
| "jadd NInf PInf = NaN"
| "jadd PInf _ = PInf"
| "jadd _ PInf = PInf"
| "jadd NInf _ = NInf"
| "jadd _ NInf = NInf"

definition jsub :: "jsnum \<Rightarrow> jsnum \<Rightarrow> jsnum" where
  "jsub a b = jadd a (jneg b)"

fun jmul :: "jsnum \<Rightarrow> jsnum \<Rightarrow> jsnum" where
  "jmul (Fin a) (Fin b) = round_double (a * b)"
| "jmul NaN _ = NaN"
| "jmul _ NaN = NaN"
| "jmul (Fin a) PInf = (if a = 0 then NaN else if 0 < a then PInf else NInf)"
| "jmul (Fin a) NInf = (if a = 0 then NaN else if 0 < a then NInf else PInf)"
| "jmul PInf (Fin b) = (if b = 0 then NaN else if 0 < b then PInf else NInf)"
| "jmul NInf (Fin b) = (if b = 0 then NaN else if 0 < b then NInf else PInf)"
| "jmul PInf PInf = PInf"
| "jmul NInf NInf = PInf"
| "jmul PInf NInf = NInf"
| "jmul NInf PInf = NInf"

text \<open>The comparison \<open>a <= b\<close>: false when either side is \<open>NaN\<close>.\<close>

fun jle :: "jsnum \<Rightarrow> jsnum \<Rightarrow> bool" where
  "jle NaN _ = False"
| "jle _ NaN = False"
| "jle NInf _ = True"
| "jle _ PInf = True"
| "jle (Fin a) (Fin b) = (a \<le> b)"
| "jle _ _ = False"

text \<open>\<open>Math.max(a, b)\<close> on two numbers: \<open>NaN\<close> if either is \<open>NaN\<close>.\<close>

fun Math_max2 :: "jsnum \<Rightarrow> jsnum \<Rightarrow> jsnum" where
  "Math_max2 NaN _ = NaN"
| "Math_max2 _ NaN = NaN"
| "Math_max2 PInf _ = PInf"
| "Math_max2 _ PInf = PInf"
| "Math_max2 NInf b = b"
| "Math_max2 a NInf = a"
| "Math_max2 (Fin a) (Fin b) = Fin (max a b)"

text \<open>
  \<open>Math.min(...xs)\<close> and \<open>Math.max(...xs)\<close> on an array of finite numbers: with no
  argument they return \<open>Infinity\<close> and \<open>-Infinity\<close>. Neither rounds.
\<close>

definition Math_min :: "real list \<Rightarrow> jsnum" where
  "Math_min xs = (case xs of [] \<Rightarrow> PInf | x # r \<Rightarrow> Fin (fold min r x))"

definition Math_max :: "real list \<Rightarrow> jsnum" where
  "Math_max xs = (case xs of [] \<Rightarrow> NInf | x # r \<Rightarrow> Fin (fold max r x))"

subsection \<open>The solver's response\<close>

type_synonym point = "real \<times> real"

record solver_data =
  A :: "point list"
  B :: "point list"
  C :: "point list"
  D :: "point list"

subsection \<open>Bounds (lines 23 to 39)\<close>

record bounds =
  xmin :: jsnum
  xmax :: jsnum
  ymin :: jsnum
  ymax :: jsnum
  padding :: jsnum
  xRange :: "jsnum \<times> jsnum"
  yRange :: "jsnum \<times> jsnum"

definition allX :: "solver_data \<Rightarrow> real list" where
  "allX d = map fst (A d) @ map fst (B d) @ map fst (C d) @ map fst (D d)"

definition allY :: "solver_data \<Rightarrow> real list" where
  "allY d = map snd (A d) @ map snd (B d) @ map snd (C d) @ map snd (D d)"

definition compute_bounds :: "solver_data \<Rightarrow> bounds" where
  "compute_bounds d =
     (let xmin' = Math_min (allX d);
          xmax' = Math_max (allX d);
          ymin' = Math_min (allY d);
          ymax' = Math_max (allY d);
          padding' = jmul (lit 0.2) (Math_max2 (jsub xmax' xmin') (jsub ymax' ymin'))
      in \<lparr>xmin = xmin', xmax = xmax', ymin = ymin', ymax = ymax', padding = padding',
          xRange = (jsub xmin' padding', jadd xmax' padding'),
          yRange = (jsub ymin' padding', jadd ymax' padding')\<rparr>)"

subsection \<open>Frames (lines 44 to 91)\<close>

datatype js_error = TypeError

datatype attr =
  ANum real | AStr string | ABool bool | AStrs "string list" | AObj "(string \<times> attr) list"

record trace =
  x_vals :: "real list"
  y_vals :: "real list"
  mode :: string
  attrs :: "(string \<times> attr) list"

record frame =
  data :: "trace list"

text \<open>\<open>xs[i]\<close> is \<open>undefined\<close> (here \<open>None\<close>) out of range.\<close>

definition at_index :: "'a list \<Rightarrow> nat \<Rightarrow> 'a option" where
  "at_index xs i = (if i < length xs then Some (xs ! i) else None)"

text \<open>\<open>arr.slice(0, n)\<close> copies the first \<open>n\<close> elements, fewer if the array is shorter.\<close>

definition slice0 :: "'a list \<Rightarrow> nat \<Rightarrow> 'a list" where
  "slice0 xs n = take n xs"

text \<open>
  The object pushed at index \<open>i\<close>. Reading \<open>[0]\<close> or \<open>[1]\<close> of \<open>data.B[i]\<close>,
  \<open>data.C[i]\<close> or \<open>data.D[i]\<close> throws a \<open>TypeError\<close> when that element is
  \<open>undefined\<close>.
\<close>

definition frame_at :: "solver_data \<Rightarrow> nat \<Rightarrow> js_error + frame" where
  "frame_at d i =
     (case (at_index (A d) i, at_index (B d) i, at_index (C d) i, at_index (D d) i) of
        (Some a, Some b, Some c, Some e) \<Rightarrow>
          Inr \<lparr>data =
            [\<lparr>x_vals = [fst a, fst b, fst c, fst e, fst a],
              y_vals = [snd a, snd b, snd c, snd e, snd a],
              mode = ''lines+markers'',
              attrs = [(''line'', AObj [(''width'', ANum 3)]),
                       (''marker'', AObj [(''size'', ANum 8)])]\<rparr>,
             \<lparr>x_vals = [fst a, fst b, fst c, fst e],
              y_vals = [snd a, snd b, snd c, snd e],
              mode = ''text'',
              attrs = [(''text'', AStrs [''A'', ''B'', ''C'', ''D'']),
                       (''textposition'', AStr ''top center''),
                       (''showlegend'', ABool False)]\<rparr>,
             \<lparr>x_vals = map fst (slice0 (C d) (i + 1)),
              y_vals = map snd (slice0 (C d) (i + 1)),
              mode = ''lines'',
              attrs = [(''line'', AObj [(''width'', ANum 2), (''dash'', AStr ''dot'')]),
                       (''name'', AStr ''Workspace'')]\<rparr>]\<rparr>
      | _ \<Rightarrow> Inl TypeError)"

text \<open>
  The loop pushes onto the array \<open>frames\<close> and reads \<open>data\<close>; both are in the state
  it passes along.
\<close>

record env =
  solver :: solver_data
  frames :: "frame list"

function frames_loop :: "nat \<Rightarrow> env \<Rightarrow> js_error + env" where
  "frames_loop i s =
     (if i < length (A (solver s)) then
        (case frame_at (solver s) i of
           Inl err \<Rightarrow> Inl err
         | Inr f \<Rightarrow> frames_loop (Suc i) (s\<lparr>frames := frames s @ [f]\<rparr>))
      else Inr s)"
  by pat_completeness auto
termination
  by (relation "measure (\<lambda>(i, s). length (A (solver s)) - i)") auto

declare frames_loop.simps [simp del]

definition assemble :: "solver_data \<Rightarrow> js_error + env" where
  "assemble d = frames_loop 0 \<lparr>solver = d, frames = []\<rparr>"

subsection \<open>Initial plot (lines 96 to 119)\<close>

record axis =
  axis_range :: "jsnum \<times> jsnum"
  zeroline :: bool
  zerolinewidth :: real
  zerolinecolor :: string
  scaleanchor :: "string option"

record layout =
  xaxis :: axis
  yaxis :: axis
  showlegend :: bool
  margin :: "(string \<times> real) list"

record newPlot_call =
  plot_div :: string
  plot_data :: "trace list"
  plot_layout :: layout

text \<open>
  The centre and the span are computed first; the argument \<open>frames[0].data\<close> of
  \<open>Plotly.newPlot\<close> throws a \<open>TypeError\<close> when \<open>frames\<close> is empty, and then the call is
  not made.
\<close>

definition initial_plot :: "bounds \<Rightarrow> frame list \<Rightarrow> js_error + newPlot_call" where
  "initial_plot b fs =
     (let cx = jmul (lit 0.5) (jadd (xmin b) (xmax b));
          cy = jmul (lit 0.5) (jadd (ymin b) (ymax b));
          span = jmul (Math_max2 (jsub (xmax b) (xmin b)) (jsub (ymax b) (ymin b))) (lit 0.6)
      in case at_index fs 0 of
           None \<Rightarrow> Inl TypeError
         | Some f0 \<Rightarrow>
             Inr \<lparr>plot_div = ''plot'', plot_data = data f0,
                  plot_layout =
                    \<lparr>xaxis = \<lparr>axis_range = (jsub cx span, jadd cx span), zeroline = True,
                              zerolinewidth = 2, zerolinecolor = ''black'',
                              scaleanchor = Some ''y''\<rparr>,
                     yaxis = \<lparr>axis_range = (jsub cy span, jadd cy span), zeroline = True,
                              zerolinewidth = 2, zerolinecolor = ''black'',
                              scaleanchor = None\<rparr>,
                     showlegend = False,
                     margin = [(''l'', 40), (''r'', 40), (''t'', 20), (''b'', 40)]\<rparr>\<rparr>)"

subsection \<open>Playback (lines 125 to 135)\<close>

record animate_opts =
  frame_duration :: real
  frame_redraw :: bool
  transition_duration :: real
  anim_mode :: string

record animate_call =
  anim_div :: string
  anim_frames :: "frame list"
  anim_opts :: animate_opts

text \<open>
  The state of the loop: the calls of \<open>Plotly.animate\<close> made so far, and how many of
  their promises are still pending (how many passes are in flight).
\<close>

record playback =
  issued :: "animate_call list"
  in_flight :: nat

definition animate_request :: "frame list \<Rightarrow> animate_call" where
  "animate_request fs =
     \<lparr>anim_div = ''plot'', anim_frames = fs,
      anim_opts = \<lparr>frame_duration = 40, frame_redraw = True, transition_duration = 0,
                   anim_mode = ''afterall''\<rparr>\<rparr>"

definition animateLoop :: "frame list \<Rightarrow> playback \<Rightarrow> playback" where
  "animateLoop fs s =
     s\<lparr>issued := issued s @ [animate_request fs], in_flight := Suc (in_flight s)\<rparr>"

text \<open>
  The promise of a pass is fulfilled: that pass is no longer in flight, and the callback
  given to \<open>then\<close> runs next.
\<close>

definition pass_fulfilled :: "playback \<Rightarrow> playback" where
  "pass_fulfilled s = s\<lparr>in_flight := in_flight s - 1\<rparr>"

definition then_callback :: "frame list \<Rightarrow> playback \<Rightarrow> playback" where
  "then_callback fs s = animateLoop fs s"

text \<open>The loop after its first call (line 135) and \<open>k\<close> fulfilled passes.\<close>

fun playback_after :: "frame list \<Rightarrow> nat \<Rightarrow> playback" where
  "playback_after fs 0 = animateLoop fs \<lparr>issued = [], in_flight = 0\<rparr>"
| "playback_after fs (Suc k) = then_callback fs (pass_fulfilled (playback_after fs k))"

text \<open>
  Modelled from the spec: the render target's "play this sequence once" operation
  (\<open>Plotly.animate\<close>, not part of the repository). Section 4.4: it plays the sequence
  from start to end, one frame at a time, and holds each frame for the frame duration of
  the request. The result lists what one pass shows, in order, with the hold time.
\<close>

definition pass_presentation :: "animate_call \<Rightarrow> (frame \<times> real) list" where
  "pass_presentation c = map (\<lambda>f. (f, frame_duration (anim_opts c))) (anim_frames c)"

subsection \<open>\<open>runAnimation\<close>, from the response on\<close>

text \<open>
  The result is the call of \<open>Plotly.newPlot\<close> and the state of the loop after the call
  of \<open>animateLoop\<close> in line 135, or the exception that ended the run before any call
  to the render target. \<open>after_bounds\<close> is the part of the function below line 39, in
  the scope of the constants of the bounds computation.
\<close>

definition after_bounds :: "bounds \<Rightarrow> solver_data \<Rightarrow> js_error + (newPlot_call \<times> playback)" where
  "after_bounds b d =
     (case assemble d of
        Inl err \<Rightarrow> Inl err
      | Inr s \<Rightarrow>
          (case initial_plot b (frames s) of
             Inl err \<Rightarrow> Inl err
           | Inr p \<Rightarrow> Inr (p, playback_after (frames s) 0)))"

definition runAnimation :: "solver_data \<Rightarrow> js_error + (newPlot_call \<times> playback)" where
  "runAnimation d = after_bounds (compute_bounds d) d"

subsection \<open>The vocabulary of the specification\<close>

text \<open>
  A Motion Series of length \<open>n\<close> is a response whose four sequences all have length
  \<open>n\<close>; Pose \<open>i\<close> is made of their elements at index \<open>i\<close>. Its Positions are all the
  points of the four sequences.
\<close>

definition motion_series :: "solver_data \<Rightarrow> nat \<Rightarrow> bool" where
  "motion_series d n \<longleftrightarrow>
     length (A d) = n \<and> length (B d) = n \<and> length (C d) = n \<and> length (D d) = n"

definition positions :: "solver_data \<Rightarrow> point set" where
  "positions d = set (A d) \<union> set (B d) \<union> set (C d) \<union> set (D d)"

text \<open>The points of a trace, in order.\<close>

definition polyline :: "trace \<Rightarrow> point list" where
  "polyline t = zip (x_vals t) (y_vals t)"

text \<open>All coordinates of the response are doubles, as the numbers of a parsed response are.\<close>

definition doubles :: "solver_data \<Rightarrow> bool" where
  "doubles d \<longleftrightarrow> (\<forall>p \<in> positions d. is_double (fst p) \<and> is_double (snd p))"

text \<open>
  The Bounds Estimator in the words of section 4.1. The extremes are those of the set
  of all Positions; differences, products and sums are the operations of the program's
  numbers, \<open>max\<close> is \<open>Math.max\<close>, and the midpoint of \<open>a\<close> and \<open>b\<close> is \<open>0.5 * (a + b)\<close>.
\<close>

definition spec_xmin :: "solver_data \<Rightarrow> real" where
  "spec_xmin d = Min (fst ` positions d)"

definition spec_xmax :: "solver_data \<Rightarrow> real" where
  "spec_xmax d = Max (fst ` positions d)"

definition spec_ymin :: "solver_data \<Rightarrow> real" where
  "spec_ymin d = Min (snd ` positions d)"

definition spec_ymax :: "solver_data \<Rightarrow> real" where
  "spec_ymax d = Max (snd ` positions d)"

definition spec_span0 :: "solver_data \<Rightarrow> jsnum" where
  "spec_span0 d =
     Math_max2 (jsub (Fin (spec_xmax d)) (Fin (spec_xmin d)))
               (jsub (Fin (spec_ymax d)) (Fin (spec_ymin d)))"

definition spec_padding :: "solver_data \<Rightarrow> jsnum" where
  "spec_padding d = jmul (lit 0.2) (spec_span0 d)"

definition spec_padded_x :: "solver_data \<Rightarrow> jsnum \<times> jsnum" where
  "spec_padded_x d =
     (jsub (Fin (spec_xmin d)) (spec_padding d), jadd (Fin (spec_xmax d)) (spec_padding d))"

definition spec_padded_y :: "solver_data \<Rightarrow> jsnum \<times> jsnum" where
  "spec_padded_y d =
     (jsub (Fin (spec_ymin d)) (spec_padding d), jadd (Fin (spec_ymax d)) (spec_padding d))"

definition spec_center :: "solver_data \<Rightarrow> jsnum \<times> jsnum" where
  "spec_center d =
     (jmul (lit 0.5) (jadd (Fin (spec_xmin d)) (Fin (spec_xmax d))),
      jmul (lit 0.5) (jadd (Fin (spec_ymin d)) (Fin (spec_ymax d))))"

definition spec_half_span :: "solver_data \<Rightarrow> jsnum" where
  "spec_half_span d = jmul (lit 0.6) (spec_span0 d)"


text \<open>The example Motion Series of section 8.\<close>

definition example_series :: solver_data where
  "example_series =
     \<lparr>A = [(0, 0), (0, 0)], B = [(1, 0), (0, 1)], C = [(1, 1), (-1, 1)],
      D = [(0, 1), (-1, 0)]\<rparr>"

text \<open>
  The empty response, a response whose positions all coincide, and one whose positions
  coincide at a large double.
\<close>

definition empty_series :: solver_data where
  "empty_series = \<lparr>A = [], B = [], C = [], D = []\<rparr>"

definition coincident_series :: solver_data where
  "coincident_series = \<lparr>A = [(1, 1)], B = [(1, 1)], C = [(1, 1)], D = [(1, 1)]\<rparr>"



text \<open>The two axis ranges of the initial plot, when the run reaches it.\<close>

definition shown_ranges ::
  "js_error + (newPlot_call \<times> playback) \<Rightarrow> ((jsnum \<times> jsnum) \<times> (jsnum \<times> jsnum)) option" where
  "shown_ranges r =
     (case r of
        Inl err \<Rightarrow> None
      | Inr (p, pl) \<Rightarrow>
          Some (axis_range (xaxis (plot_layout p)), axis_range (yaxis (plot_layout p))))"

section \<open>Properties\<close>

subsection \<open>Rounding is monotone\<close>

lemma round_even_bounds: "of_int (round_even y) \<le> y + 1 / 2" "y - 1 / 2 \<le> of_int (round_even y)"
  unfolding round_even_def Let_def by (auto; linarith)+

lemma round_even_int [simp]: "round_even (of_int k) = k"
  by (simp add: round_even_def)

lemma round_even_mono: assumes "x \<le> y" shows "round_even x \<le> round_even y"
proof (rule ccontr)
  assume "\<not> round_even x \<le> round_even y"
  then have lt: "round_even y + 1 \<le> round_even x" by simp
  then have "(of_int (round_even y) :: real) + 1 \<le> of_int (round_even x)"
    by (metis of_int_1 of_int_add of_int_le_iff)
  with round_even_bounds(1) [of x] round_even_bounds(2) [of y] assms
  have xy: "x = y" by linarith
  with lt show False by simp
qed

lemma round_even_le: "y \<le> of_int k \<Longrightarrow> round_even y \<le> k"
  using round_even_mono [of y "of_int k"] by simp

lemma round_even_ge: "of_int k \<le> y \<Longrightarrow> k \<le> round_even y"
  using round_even_mono [of "of_int k" y] by simp

lemma grid_exp_step: "n < 2045 \<and> 2 ^ (n + 53) \<le> X \<Longrightarrow> grid_exp n X = grid_exp (Suc n) X"
  by (subst grid_exp.simps) (simp only: if_True simp_thms)

lemma grid_exp_stop: "\<not> (n < 2045 \<and> 2 ^ (n + 53) \<le> X) \<Longrightarrow> grid_exp n X = n"
  by (subst grid_exp.simps) (simp only: if_False)

lemma grid_exp_ge: "n \<le> grid_exp n X"
proof (induction n X rule: grid_exp.induct)
  case (1 n X)
  show ?case
  proof (cases "n < 2045 \<and> 2 ^ (n + 53) \<le> X")
    case True
    with "1.IH" [OF True] grid_exp_step [OF True] show ?thesis by simp
  next
    case False
    then show ?thesis by (simp add: grid_exp_stop)
  qed
qed

lemma grid_exp_le: "n \<le> 2045 \<Longrightarrow> grid_exp n X \<le> 2045"
proof (induction n X rule: grid_exp.induct)
  case (1 n X)
  show ?case
  proof (cases "n < 2045 \<and> 2 ^ (n + 53) \<le> X")
    case True
    with "1.IH" [OF True] grid_exp_step [OF True] show ?thesis by simp
  next
    case False
    with "1.prems" show ?thesis by (simp add: grid_exp_stop)
  qed
qed

lemma grid_exp_upper: "grid_exp n X < 2045 \<Longrightarrow> X < 2 ^ (grid_exp n X + 53)"
proof (induction n X rule: grid_exp.induct)
  case (1 n X)
  show ?case
  proof (cases "n < 2045 \<and> 2 ^ (n + 53) \<le> X")
    case True
    then have eq: "grid_exp n X = grid_exp (Suc n) X" by (rule grid_exp_step)
    with "1.IH" [OF True] "1.prems" show ?thesis by simp
  next
    case False
    then have eq: "grid_exp n X = n" by (rule grid_exp_stop)
    with False "1.prems" show ?thesis by simp
  qed
qed

lemma grid_exp_lower: "n < grid_exp n X \<Longrightarrow> 2 ^ (grid_exp n X + 52) \<le> X"
proof (induction n X rule: grid_exp.induct)
  case (1 n X)
  show ?case
  proof (cases "n < 2045 \<and> 2 ^ (n + 53) \<le> X")
    case True
    then have eq: "grid_exp n X = grid_exp (Suc n) X" by (rule grid_exp_step)
    show ?thesis
    proof (cases "Suc n < grid_exp (Suc n) X")
      case True
      with "1.IH" [OF \<open>n < 2045 \<and> 2 ^ (n + 53) \<le> X\<close>] eq show ?thesis by simp
    next
      case False
      with grid_exp_ge [of "Suc n" X] have "grid_exp (Suc n) X = Suc n" by simp
      with eq True show ?thesis by (simp add: add.commute)
    qed
  next
    case False
    then have "grid_exp n X = n" by (rule grid_exp_stop)
    with "1.prems" show ?thesis by simp
  qed
qed

lemma grid_exp_mono: "X \<le> Y \<Longrightarrow> grid_exp n X \<le> grid_exp n Y"
proof (induction n X rule: grid_exp.induct)
  case (1 n X)
  show ?case
  proof (cases "n < 2045 \<and> 2 ^ (n + 53) \<le> X")
    case True
    with "1.prems" have Y: "n < 2045 \<and> 2 ^ (n + 53) \<le> Y" by simp
    have "grid_exp n X = grid_exp (Suc n) X" using True by (rule grid_exp_step)
    moreover have "grid_exp n Y = grid_exp (Suc n) Y" using Y by (rule grid_exp_step)
    ultimately show ?thesis using "1.IH" [OF True "1.prems"] by simp
  next
    case False
    then have "grid_exp n X = n" by (rule grid_exp_stop)
    with grid_exp_ge [of n Y] show ?thesis by simp
  qed
qed

lemma grid_exp_eq:
  assumes "n \<le> k" "k \<le> 2045" "k = n \<or> 2 ^ (k + 52) \<le> X" "k = 2045 \<or> X < 2 ^ (k + 53)"
  shows "grid_exp n X = k"
  using assms
proof (induction n X rule: grid_exp.induct)
  case (1 n X)
  show ?case
  proof (cases "n = k")
    case True
    with "1.prems" have "\<not> (n < 2045 \<and> 2 ^ (n + 53) \<le> X)" by auto
    then have "grid_exp n X = n" by (rule grid_exp_stop)
    with True show ?thesis by simp
  next
    case False
    with "1.prems" have lt: "n < k" and low: "2 ^ (k + 52) \<le> X" by auto
    from lt have "(2::real) ^ (n + 53) \<le> 2 ^ (k + 52)" by (intro power_increasing) auto
    with low have "2 ^ (n + 53) \<le> X" by linarith
    with lt "1.prems"(2) have c: "n < 2045 \<and> 2 ^ (n + 53) \<le> X" by simp
    then have "grid_exp n X = grid_exp (Suc n) X" by (rule grid_exp_step)
    moreover have "grid_exp (Suc n) X = k"
      using lt "1.prems" low by (intro "1.IH" [OF c]) auto
    ultimately show ?thesis by simp
  qed
qed

lemma jle_refl: "a \<noteq> NaN \<Longrightarrow> jle a a"
  by (cases a) simp_all

lemma jle_trans: "jle a b \<Longrightarrow> jle b c \<Longrightarrow> jle a c"
  by (cases a; cases b; cases c) simp_all

lemma jle_jneg: "jle (jneg a) (jneg b) = jle b a"
  by (cases a; cases b) simp_all

lemma rd_pos_val: "rd_pos x = (if 2 ^ 1024 \<le> rd_val x then PInf else Fin (rd_val x))"
  by (simp add: rd_pos_def Let_def)

lemma rd_val_mono:
  assumes "0 \<le> x" "x \<le> y"
  shows "rd_val x \<le> rd_val y"
proof -
  define X where "X = x * 2 ^ 1074"
  define Y where "Y = y * 2 ^ 1074"
  define nx where "nx = grid_exp 0 X"
  define ny where "ny = grid_exp 0 Y"
  define mx where "mx = round_even (X / 2 ^ nx)"
  define my where "my = round_even (Y / 2 ^ ny)"
  from assms have XY: "X \<le> Y" by (simp add: X_def Y_def)
  then have n: "nx \<le> ny" unfolding nx_def ny_def by (rule grid_exp_mono)
  have "(of_int mx :: real) * 2 ^ nx \<le> of_int my * 2 ^ ny"
  proof (cases "nx = ny")
    case True
    from XY have "X / 2 ^ nx \<le> Y / 2 ^ nx" by (simp add: divide_right_mono)
    then have "mx \<le> my" unfolding mx_def my_def True by (rule round_even_mono)
    then show ?thesis by (simp add: True)
  next
    case False
    with n have lt: "nx < ny" by simp
    have "ny \<le> 2045" unfolding ny_def by (rule grid_exp_le) simp
    with lt have "nx < 2045" by simp
    then have "X < 2 ^ (nx + 53)" unfolding nx_def by (rule grid_exp_upper)
    then have "X / 2 ^ nx \<le> of_int (2 ^ 53)" by (simp add: power_add field_simps)
    then have "mx \<le> 2 ^ 53" unfolding mx_def by (rule round_even_le)
    then have "(of_int mx :: real) \<le> 2 ^ 53"
      by (metis of_int_le_iff of_int_numeral of_int_power)
    then have a: "(of_int mx :: real) * 2 ^ nx \<le> 2 ^ (nx + 53)" by (simp add: power_add)
    from lt have "0 < ny" by simp
    then have "2 ^ (ny + 52) \<le> Y" unfolding ny_def by (rule grid_exp_lower)
    then have "of_int (2 ^ 52) \<le> Y / 2 ^ ny" by (simp add: power_add field_simps)
    then have "2 ^ 52 \<le> my" unfolding my_def by (rule round_even_ge)
    then have "(2 ^ 52 :: real) \<le> of_int my"
      by (metis of_int_le_iff of_int_numeral of_int_power)
    then have b: "(2::real) ^ (ny + 52) \<le> of_int my * 2 ^ ny" by (simp add: power_add)
    from lt have "(2::real) ^ (nx + 53) \<le> 2 ^ (ny + 52)" by (intro power_increasing) auto
    with a b show ?thesis by linarith
  qed
  then show ?thesis
    unfolding rd_val_def Let_def mx_def my_def nx_def ny_def X_def Y_def
    by (simp add: divide_right_mono)
qed

lemma round_even_0: "round_even 0 = 0"
  using round_even_int [of 0] by simp

lemma rd_val_0: "rd_val 0 = 0"
  by (simp add: rd_val_def Let_def grid_exp_stop round_even_0)

lemma rd_pos_mono: "0 \<le> x \<Longrightarrow> x \<le> y \<Longrightarrow> jle (rd_pos x) (rd_pos y)"
  using rd_val_mono [of x y] by (simp add: rd_pos_val)

lemma rd_pos_nonneg: "0 \<le> x \<Longrightarrow> jle (Fin 0) (rd_pos x)"
  using rd_pos_mono [of 0 x] by (simp add: rd_pos_val rd_val_0)

lemma rd_pos_not_NaN: "rd_pos x \<noteq> NaN"
  by (simp add: rd_pos_val)

lemma round_double_0: "round_double 0 = Fin 0"
  by (simp add: round_double_def rd_pos_val rd_val_0)

lemma round_double_not_NaN: "round_double x \<noteq> NaN"
  by (cases "rd_pos (- x)") (simp_all add: round_double_def rd_pos_not_NaN)

lemma round_double_mono:
  assumes "x \<le> y"
  shows "jle (round_double x) (round_double y)"
proof -
  consider "0 \<le> x" | "x < 0" "y < 0" | "x < 0" "0 \<le> y" by linarith
  then show ?thesis
  proof cases
    case 1
    with assms show ?thesis by (simp add: round_double_def rd_pos_mono)
  next
    case 2
    with assms rd_pos_mono [of "- y" "- x"] show ?thesis
      by (simp add: round_double_def jle_jneg)
  next
    case 3
    from 3 rd_pos_nonneg [of "- x"] have "jle (jneg (rd_pos (- x))) (Fin 0)"
      using jle_jneg [of "rd_pos (- x)" "Fin 0"] by simp
    moreover from 3 have "jle (Fin 0) (rd_pos y)" by (simp add: rd_pos_nonneg)
    ultimately show ?thesis using 3 by (auto simp: round_double_def intro: jle_trans)
  qed
qed

lemma round_double_minus: "x \<noteq> 0 \<Longrightarrow> round_double (- x) = jneg (round_double x)"
  by (cases "rd_pos x"; cases "rd_pos (- x)") (auto simp: round_double_def)

lemma round_even_near: "\<bar>y - of_int m\<bar> < 1 / 2 \<Longrightarrow> round_even y = m"
proof -
  assume a: "\<bar>y - of_int m\<bar> < 1 / 2"
  have "round_even y \<le> m"
  proof (rule ccontr)
    assume "\<not> round_even y \<le> m"
    then have "m + 1 \<le> round_even y" by simp
    then have "(of_int m :: real) + 1 \<le> of_int (round_even y)"
      by (metis of_int_1 of_int_add of_int_le_iff)
    with round_even_bounds(1) [of y] a show False by linarith
  qed
  moreover have "m \<le> round_even y"
  proof (rule ccontr)
    assume "\<not> m \<le> round_even y"
    then have "round_even y + 1 \<le> m" by simp
    then have "(of_int (round_even y) :: real) + 1 \<le> of_int m"
      by (metis of_int_1 of_int_add of_int_le_iff)
    with round_even_bounds(2) [of y] a show False by linarith
  qed
  ultimately show ?thesis by simp
qed

lemma round_even_tie_up: "y = of_int m - 1 / 2 \<Longrightarrow> even m \<Longrightarrow> round_even y = m"
proof -
  assume y: "y = of_int m - 1 / 2" and e: "even m"
  have "\<lfloor>y\<rfloor> = m - 1" unfolding y by (simp add: floor_eq_iff) 
  with y e show ?thesis by (simp add: round_even_def Let_def)
qed

lemma round_even_tie_down: "y = of_int m + 1 / 2 \<Longrightarrow> even m \<Longrightarrow> round_even y = m"
proof -
  assume y: "y = of_int m + 1 / 2" and e: "even m"
  have "\<lfloor>y\<rfloor> = m" unfolding y by (simp add: floor_eq_iff)
  with y e show ?thesis by (simp add: round_even_def Let_def)
qed

lemma rd_pos_eval:
  assumes "k \<le> 2045" "k = 0 \<or> 2 ^ (k + 52) \<le> x * 2 ^ 1074"
    "k = 2045 \<or> x * 2 ^ 1074 < 2 ^ (k + 53)"
    "round_even (x * 2 ^ 1074 / 2 ^ k) = m"
  shows "rd_pos x = (if (2::real) ^ 1024 \<le> of_int m * 2 ^ k / 2 ^ 1074 then PInf
                     else Fin (of_int m * 2 ^ k / 2 ^ 1074))"
proof -
  from assms(1-3) have "grid_exp 0 (x * 2 ^ 1074) = k" by (intro grid_exp_eq) auto
  with assms(4) show ?thesis by (simp add: rd_pos_val rd_val_def Let_def)
qed

subsection \<open>Values of the rounding\<close>

lemma rd_1: "round_double 1 = Fin 1"
proof -
  have "rd_pos 1 =
      (if (2::real) ^ 1024 \<le> of_int 4503599627370496 * 2 ^ 1022 / 2 ^ 1074 then PInf
       else Fin (of_int 4503599627370496 * 2 ^ 1022 / 2 ^ 1074))"
    by (rule rd_pos_eval)
       (simp_all add: round_even_near round_even_tie_up round_even_tie_down)
  then show ?thesis by (simp add: round_double_def)
qed

lemma rd_2: "round_double 2 = Fin 2"
proof -
  have "rd_pos 2 =
      (if (2::real) ^ 1024 \<le> of_int 4503599627370496 * 2 ^ 1023 / 2 ^ 1074 then PInf
       else Fin (of_int 4503599627370496 * 2 ^ 1023 / 2 ^ 1074))"
    by (rule rd_pos_eval)
       (simp_all add: round_even_near round_even_tie_up round_even_tie_down)
  then show ?thesis by (simp add: round_double_def)
qed

lemma rd_neg_1: "round_double (- 1) = Fin (- 1)"
proof -
  have "rd_pos 1 =
      (if (2::real) ^ 1024 \<le> of_int 4503599627370496 * 2 ^ 1022 / 2 ^ 1074 then PInf
       else Fin (of_int 4503599627370496 * 2 ^ 1022 / 2 ^ 1074))"
    by (rule rd_pos_eval)
       (simp_all add: round_even_near round_even_tie_up round_even_tie_down)
  then show ?thesis by (simp add: round_double_def)
qed

lemma rd_half: "round_double (1 / 2) = Fin (1 / 2)"
proof -
  have "rd_pos (1 / 2) =
      (if (2::real) ^ 1024 \<le> of_int 4503599627370496 * 2 ^ 1021 / 2 ^ 1074 then PInf
       else Fin (of_int 4503599627370496 * 2 ^ 1021 / 2 ^ 1074))"
    by (rule rd_pos_eval)
       (simp_all add: round_even_near round_even_tie_up round_even_tie_down)
  then show ?thesis by (simp add: round_double_def)
qed

lemma rd_lit_02: "round_double (1 / 5) = Fin (3602879701896397 / 18014398509481984)"
proof -
  have "rd_pos (1 / 5) =
      (if (2::real) ^ 1024 \<le> of_int 7205759403792794 * 2 ^ 1019 / 2 ^ 1074 then PInf
       else Fin (of_int 7205759403792794 * 2 ^ 1019 / 2 ^ 1074))"
    by (rule rd_pos_eval)
       (simp_all add: round_even_near round_even_tie_up round_even_tie_down)
  then show ?thesis by (simp add: round_double_def)
qed

lemma rd_lit_06: "round_double (3 / 5) = Fin (5404319552844595 / 9007199254740992)"
proof -
  have "rd_pos (3 / 5) =
      (if (2::real) ^ 1024 \<le> of_int 5404319552844595 * 2 ^ 1021 / 2 ^ 1074 then PInf
       else Fin (of_int 5404319552844595 * 2 ^ 1021 / 2 ^ 1074))"
    by (rule rd_pos_eval)
       (simp_all add: round_even_near round_even_tie_up round_even_tie_down)
  then show ?thesis by (simp add: round_double_def)
qed

lemma rd_c04: "round_double (3602879701896397 / 9007199254740992) = Fin (3602879701896397 / 9007199254740992)"
proof -
  have "rd_pos (3602879701896397 / 9007199254740992) =
      (if (2::real) ^ 1024 \<le> of_int 7205759403792794 * 2 ^ 1020 / 2 ^ 1074 then PInf
       else Fin (of_int 7205759403792794 * 2 ^ 1020 / 2 ^ 1074))"
    by (rule rd_pos_eval)
       (simp_all add: round_even_near round_even_tie_up round_even_tie_down)
  then show ?thesis by (simp add: round_double_def)
qed

lemma rd_neg_c04: "round_double (- (3602879701896397 / 9007199254740992)) = Fin (- (3602879701896397 / 9007199254740992))"
proof -
  have "rd_pos (3602879701896397 / 9007199254740992) =
      (if (2::real) ^ 1024 \<le> of_int 7205759403792794 * 2 ^ 1020 / 2 ^ 1074 then PInf
       else Fin (of_int 7205759403792794 * 2 ^ 1020 / 2 ^ 1074))"
    by (rule rd_pos_eval)
       (simp_all add: round_even_near round_even_tie_up round_even_tie_down)
  then show ?thesis by (simp add: round_double_def)
qed

lemma rd_1_plus_c04: "round_double (12610078956637389 / 9007199254740992) = Fin (3152519739159347 / 2251799813685248)"
proof -
  have "rd_pos (12610078956637389 / 9007199254740992) =
      (if (2::real) ^ 1024 \<le> of_int 6305039478318694 * 2 ^ 1022 / 2 ^ 1074 then PInf
       else Fin (of_int 6305039478318694 * 2 ^ 1022 / 2 ^ 1074))"
    by (rule rd_pos_eval)
       (simp_all add: round_even_near round_even_tie_up round_even_tie_down)
  then show ?thesis by (simp add: round_double_def)
qed

lemma rd_neg_1_minus_c04: "round_double (- (12610078956637389 / 9007199254740992)) = Fin (- (3152519739159347 / 2251799813685248))"
proof -
  have "rd_pos (12610078956637389 / 9007199254740992) =
      (if (2::real) ^ 1024 \<le> of_int 6305039478318694 * 2 ^ 1022 / 2 ^ 1074 then PInf
       else Fin (of_int 6305039478318694 * 2 ^ 1022 / 2 ^ 1074))"
    by (rule rd_pos_eval)
       (simp_all add: round_even_near round_even_tie_up round_even_tie_down)
  then show ?thesis by (simp add: round_double_def)
qed

lemma rd_lit_14: "round_double (7 / 5) = Fin (3152519739159347 / 2251799813685248)"
proof -
  have "rd_pos (7 / 5) =
      (if (2::real) ^ 1024 \<le> of_int 6305039478318694 * 2 ^ 1022 / 2 ^ 1074 then PInf
       else Fin (of_int 6305039478318694 * 2 ^ 1022 / 2 ^ 1074))"
    by (rule rd_pos_eval)
       (simp_all add: round_even_near round_even_tie_up round_even_tie_down)
  then show ?thesis by (simp add: round_double_def)
qed

lemma rd_lit_neg_14: "round_double (- (7 / 5)) = Fin (- (3152519739159347 / 2251799813685248))"
proof -
  have "rd_pos (7 / 5) =
      (if (2::real) ^ 1024 \<le> of_int 6305039478318694 * 2 ^ 1022 / 2 ^ 1074 then PInf
       else Fin (of_int 6305039478318694 * 2 ^ 1022 / 2 ^ 1074))"
    by (rule rd_pos_eval)
       (simp_all add: round_even_near round_even_tie_up round_even_tie_down)
  then show ?thesis by (simp add: round_double_def)
qed

lemma rd_lit_neg_04: "round_double (- (2 / 5)) = Fin (- (3602879701896397 / 9007199254740992))"
proof -
  have "rd_pos (2 / 5) =
      (if (2::real) ^ 1024 \<le> of_int 7205759403792794 * 2 ^ 1020 / 2 ^ 1074 then PInf
       else Fin (of_int 7205759403792794 * 2 ^ 1020 / 2 ^ 1074))"
    by (rule rd_pos_eval)
       (simp_all add: round_even_near round_even_tie_up round_even_tie_down)
  then show ?thesis by (simp add: round_double_def)
qed

lemma rd_c12: "round_double (5404319552844595 / 4503599627370496) = Fin (5404319552844595 / 4503599627370496)"
proof -
  have "rd_pos (5404319552844595 / 4503599627370496) =
      (if (2::real) ^ 1024 \<le> of_int 5404319552844595 * 2 ^ 1022 / 2 ^ 1074 then PInf
       else Fin (of_int 5404319552844595 * 2 ^ 1022 / 2 ^ 1074))"
    by (rule rd_pos_eval)
       (simp_all add: round_even_near round_even_tie_up round_even_tie_down)
  then show ?thesis by (simp add: round_double_def)
qed

lemma rd_neg_c12: "round_double (- (5404319552844595 / 4503599627370496)) = Fin (- (5404319552844595 / 4503599627370496))"
proof -
  have "rd_pos (5404319552844595 / 4503599627370496) =
      (if (2::real) ^ 1024 \<le> of_int 5404319552844595 * 2 ^ 1022 / 2 ^ 1074 then PInf
       else Fin (of_int 5404319552844595 * 2 ^ 1022 / 2 ^ 1074))"
    by (rule rd_pos_eval)
       (simp_all add: round_even_near round_even_tie_up round_even_tie_down)
  then show ?thesis by (simp add: round_double_def)
qed

lemma rd_half_minus_c12: "round_double (- (3152519739159347 / 4503599627370496)) = Fin (- (3152519739159347 / 4503599627370496))"
proof -
  have "rd_pos (3152519739159347 / 4503599627370496) =
      (if (2::real) ^ 1024 \<le> of_int 6305039478318694 * 2 ^ 1021 / 2 ^ 1074 then PInf
       else Fin (of_int 6305039478318694 * 2 ^ 1021 / 2 ^ 1074))"
    by (rule rd_pos_eval)
       (simp_all add: round_even_near round_even_tie_up round_even_tie_down)
  then show ?thesis by (simp add: round_double_def)
qed

lemma rd_half_plus_c12: "round_double (7656119366529843 / 4503599627370496) = Fin (7656119366529843 / 4503599627370496)"
proof -
  have "rd_pos (7656119366529843 / 4503599627370496) =
      (if (2::real) ^ 1024 \<le> of_int 7656119366529843 * 2 ^ 1022 / 2 ^ 1074 then PInf
       else Fin (of_int 7656119366529843 * 2 ^ 1022 / 2 ^ 1074))"
    by (rule rd_pos_eval)
       (simp_all add: round_even_near round_even_tie_up round_even_tie_down)
  then show ?thesis by (simp add: round_double_def)
qed

lemma rd_lit_12: "round_double (6 / 5) = Fin (5404319552844595 / 4503599627370496)"
proof -
  have "rd_pos (6 / 5) =
      (if (2::real) ^ 1024 \<le> of_int 5404319552844595 * 2 ^ 1022 / 2 ^ 1074 then PInf
       else Fin (of_int 5404319552844595 * 2 ^ 1022 / 2 ^ 1074))"
    by (rule rd_pos_eval)
       (simp_all add: round_even_near round_even_tie_up round_even_tie_down)
  then show ?thesis by (simp add: round_double_def)
qed

lemma rd_lit_neg_12: "round_double (- (6 / 5)) = Fin (- (5404319552844595 / 4503599627370496))"
proof -
  have "rd_pos (6 / 5) =
      (if (2::real) ^ 1024 \<le> of_int 5404319552844595 * 2 ^ 1022 / 2 ^ 1074 then PInf
       else Fin (of_int 5404319552844595 * 2 ^ 1022 / 2 ^ 1074))"
    by (rule rd_pos_eval)
       (simp_all add: round_even_near round_even_tie_up round_even_tie_down)
  then show ?thesis by (simp add: round_double_def)
qed

lemma rd_lit_neg_07: "round_double (- (7 / 10)) = Fin (- (3152519739159347 / 4503599627370496))"
proof -
  have "rd_pos (7 / 10) =
      (if (2::real) ^ 1024 \<le> of_int 6305039478318694 * 2 ^ 1021 / 2 ^ 1074 then PInf
       else Fin (of_int 6305039478318694 * 2 ^ 1021 / 2 ^ 1074))"
    by (rule rd_pos_eval)
       (simp_all add: round_even_near round_even_tie_up round_even_tie_down)
  then show ?thesis by (simp add: round_double_def)
qed

lemma rd_lit_17: "round_double (17 / 10) = Fin (7656119366529843 / 4503599627370496)"
proof -
  have "rd_pos (17 / 10) =
      (if (2::real) ^ 1024 \<le> of_int 7656119366529843 * 2 ^ 1022 / 2 ^ 1074 then PInf
       else Fin (of_int 7656119366529843 * 2 ^ 1022 / 2 ^ 1074))"
    by (rule rd_pos_eval)
       (simp_all add: round_even_near round_even_tie_up round_even_tie_down)
  then show ?thesis by (simp add: round_double_def)
qed








subsection \<open>The operators, and the bounds as minima and maxima of the positions\<close>

lemma jsub_Fin: "jsub (Fin a) (Fin b) = round_double (a - b)"
  by (simp add: jsub_def)

lemma jmul_commute: "jmul a b = jmul b a"
  by (cases a; cases b) (simp_all add: mult.commute)

lemma round_double_nonneg: "0 \<le> x \<Longrightarrow> jle (Fin 0) (round_double x)"
  using round_double_mono [of 0 x] by (simp add: round_double_0)

lemma Math_max2_nonneg: "jle (Fin 0) a \<Longrightarrow> jle (Fin 0) b \<Longrightarrow> jle (Fin 0) (Math_max2 a b)"
  by (cases a; cases b) simp_all

lemma jmul_nonneg: "0 < c \<Longrightarrow> jle (Fin 0) s \<Longrightarrow> jle (Fin 0) (jmul (Fin c) s)"
  by (cases s) (simp_all add: round_double_nonneg)

lemma jsub_below:
  assumes "jle (Fin g) p" "a - g \<le> v" "is_double v"
  shows "jle (jsub (Fin a) p) (Fin v)"
proof (cases p)
  case (Fin h)
  with assms(1) have "g \<le> h" by simp
  with assms(2) have "a - h \<le> v" by simp
  from round_double_mono [OF this] assms(3) Fin show ?thesis
    by (simp add: jsub_Fin is_double_def)
qed (use assms(1) in \<open>simp_all add: jsub_def\<close>)

lemma jadd_above:
  assumes "jle (Fin g) p" "v \<le> a + g" "is_double v"
  shows "jle (Fin v) (jadd (Fin a) p)"
proof (cases p)
  case (Fin h)
  with assms(1) have "g \<le> h" by simp
  with assms(2) have "v \<le> a + h" by simp
  from round_double_mono [OF this] assms(3) Fin show ?thesis
    by (simp add: is_double_def)
qed (use assms(1) in simp_all)

lemma lit_02: "lit (1 / 5) = Fin (3602879701896397 / 18014398509481984)"
  by (simp add: lit_def rd_lit_02)

lemma lit_05: "lit (1 / 2) = Fin (1 / 2)"
  by (simp add: lit_def rd_half)

lemma lit_06: "lit (3 / 5) = Fin (5404319552844595 / 9007199254740992)"
  by (simp add: lit_def rd_lit_06)

lemma Math_min_Min: "xs \<noteq> [] \<Longrightarrow> Math_min xs = Fin (Min (set xs))"
  by (cases xs) (simp_all add: Math_min_def Min.set_eq_fold [symmetric])

lemma Math_max_Max: "xs \<noteq> [] \<Longrightarrow> Math_max xs = Fin (Max (set xs))"
  by (cases xs) (simp_all add: Math_max_def Max.set_eq_fold [symmetric])

lemma set_allX: "set (allX d) = fst ` positions d"
  by (auto simp: allX_def positions_def)

lemma set_allY: "set (allY d) = snd ` positions d"
  by (auto simp: allY_def positions_def)

lemma allX_empty: "allX d = [] \<longleftrightarrow> positions d = {}"
  by (auto simp: allX_def positions_def)

lemma allY_empty: "allY d = [] \<longleftrightarrow> positions d = {}"
  by (auto simp: allY_def positions_def)

lemma bounds_fields:
  assumes "positions d \<noteq> {}"
  shows "xmin (compute_bounds d) = Fin (spec_xmin d)"
    and "xmax (compute_bounds d) = Fin (spec_xmax d)"
    and "ymin (compute_bounds d) = Fin (spec_ymin d)"
    and "ymax (compute_bounds d) = Fin (spec_ymax d)"
    and "padding (compute_bounds d) = spec_padding d"
    and "xRange (compute_bounds d) = spec_padded_x d"
    and "yRange (compute_bounds d) = spec_padded_y d"
  using assms
  by (simp_all add: compute_bounds_def Let_def Math_min_Min Math_max_Max allX_empty allY_empty
      set_allX set_allY spec_xmin_def spec_xmax_def spec_ymin_def spec_ymax_def spec_padding_def
      spec_span0_def spec_padded_x_def spec_padded_y_def)

lemma finite_positions: "finite (positions d)"
  by (simp add: positions_def)

lemma spec_x_bounds:
  assumes "p \<in> positions d"
  shows "spec_xmin d \<le> fst p" and "fst p \<le> spec_xmax d"
  using assms by (simp_all add: spec_xmin_def spec_xmax_def finite_positions)

lemma spec_y_bounds:
  assumes "p \<in> positions d"
  shows "spec_ymin d \<le> snd p" and "snd p \<le> spec_ymax d"
  using assms by (simp_all add: spec_ymin_def spec_ymax_def finite_positions)

lemma spec_span0_nonneg:
  assumes "positions d \<noteq> {}"
  shows "jle (Fin 0) (spec_span0 d)"
proof -
  from assms obtain p where p: "p \<in> positions d" by auto
  from spec_x_bounds [OF p] have "0 \<le> spec_xmax d - spec_xmin d" by simp
  moreover from spec_y_bounds [OF p] have "0 \<le> spec_ymax d - spec_ymin d" by simp
  ultimately show ?thesis
    by (simp add: spec_span0_def jsub_Fin Math_max2_nonneg round_double_nonneg)
qed

lemma spec_padding_nonneg:
  assumes "positions d \<noteq> {}"
  shows "jle (Fin 0) (spec_padding d)"
  using spec_span0_nonneg [OF assms] by (simp add: spec_padding_def lit_02 jmul_nonneg)

subsection \<open>The frame loop\<close>

lemma frame_at_Inr:
  assumes "motion_series d n" "i < n"
  shows "\<exists>f. frame_at d i = Inr f"
  using assms by (simp add: frame_at_def at_index_def motion_series_def)

lemma frames_loop_Inr:
  assumes "frames_loop i s = Inr s'"
  shows "solver s' = solver s \<and>
         frames s' = frames s @ map (\<lambda>j. projr (frame_at (solver s) j)) [i..<length (A (solver s))]"
  using assms
proof (induction i s rule: frames_loop.induct)
  case (1 i s)
  show ?case
  proof (cases "i < length (A (solver s))")
    case False
    with "1.prems" have "s' = s" by (simp add: frames_loop.simps [of i s])
    with False show ?thesis by simp
  next
    case True
    with "1.prems" obtain f where f: "frame_at (solver s) i = Inr f"
      and run: "frames_loop (Suc i) (s\<lparr>frames := frames s @ [f]\<rparr>) = Inr s'"
      by (auto simp: frames_loop.simps [of i s] split: sum.splits)
    from "1.IH" [OF True f run] f True show ?thesis
      by (simp add: upt_conv_Cons)
  qed
qed

lemma frames_loop_total:
  assumes "motion_series (solver s) n" "i \<le> n"
  shows "\<exists>s'. frames_loop i s = Inr s'"
  using assms
proof (induction i s rule: frames_loop.induct)
  case (1 i s)
  show ?case
  proof (cases "i < length (A (solver s))")
    case False
    then show ?thesis by (simp add: frames_loop.simps [of i s])
  next
    case True
    with "1.prems" have "i < n" by (simp add: motion_series_def)
    with frame_at_Inr "1.prems" obtain f where f: "frame_at (solver s) i = Inr f" by blast
    from \<open>i < n\<close> "1.prems" have "\<exists>s'. frames_loop (Suc i) (s\<lparr>frames := frames s @ [f]\<rparr>) = Inr s'"
      by (intro "1.IH" [OF True f]) simp_all
    with True f show ?thesis by (simp add: frames_loop.simps [of i s])
  qed
qed

lemma assemble_motion_series:
  assumes "motion_series d n"
  shows "assemble d = Inr \<lparr>solver = d, frames = map (\<lambda>j. projr (frame_at d j)) [0..<n]\<rparr>"
proof -
  from frames_loop_total [of "\<lparr>solver = d, frames = []\<rparr>" n 0] assms
  obtain s' where s': "frames_loop 0 \<lparr>solver = d, frames = []\<rparr> = Inr s'" by auto
  from frames_loop_Inr [OF s'] assms have "s' = \<lparr>solver = d, frames = map (\<lambda>j. projr (frame_at d j)) [0..<n]\<rparr>"
    by (simp add: motion_series_def)
  with s' show ?thesis by (simp add: assemble_def)
qed

lemma frame_at_motion_series:
  assumes "motion_series d n" "i < n"
  shows "data (projr (frame_at d i)) ! 0 =
           \<lparr>x_vals = [fst (A d ! i), fst (B d ! i), fst (C d ! i), fst (D d ! i), fst (A d ! i)],
            y_vals = [snd (A d ! i), snd (B d ! i), snd (C d ! i), snd (D d ! i), snd (A d ! i)],
            mode = ''lines+markers'',
            attrs = [(''line'', AObj [(''width'', ANum 3)]), (''marker'', AObj [(''size'', ANum 8)])]\<rparr>"
    and "polyline (data (projr (frame_at d i)) ! 2) = take (Suc i) (C d)"
  using assms by (simp_all add: frame_at_def at_index_def motion_series_def polyline_def slice0_def zip_map_fst_snd)

subsection \<open>The example of section 8\<close>

lemma example_positions:
  "positions example_series = {(0, 0), (1, 0), (0, 1), (1, 1), (-1, 1), (-1, 0)}"
  by (auto simp: positions_def example_series_def)

lemma example_spec_values:
  "spec_xmin example_series = -1" "spec_xmax example_series = 1"
  "spec_ymin example_series = 0" "spec_ymax example_series = 1"
  by (simp_all add: spec_xmin_def spec_xmax_def spec_ymin_def spec_ymax_def example_positions)

lemma example_motion_series: "motion_series example_series 2"
  by (simp add: motion_series_def example_series_def)

lemma example_doubles: "doubles example_series"
  by (simp add: doubles_def example_positions is_double_def round_double_0 rd_1 rd_neg_1)

lemma example_bounds:
  "compute_bounds example_series =
     \<lparr>xmin = Fin (- 1), xmax = Fin 1, ymin = Fin 0, ymax = Fin 1,
      padding = Fin (3602879701896397 / 9007199254740992),
      xRange = (Fin (- (3152519739159347 / 2251799813685248)),
                Fin (3152519739159347 / 2251799813685248)),
      yRange = (Fin (- (3602879701896397 / 9007199254740992)),
                Fin (3152519739159347 / 2251799813685248))\<rparr>"
  by (simp add: compute_bounds_def example_series_def allX_def allY_def Math_min_def
      Math_max_def jsub_def Let_def lit_02 round_double_0 rd_1 rd_2 rd_c04 rd_neg_c04
      rd_1_plus_c04 rd_neg_1_minus_c04)

subsection \<open>The padded View Window\<close>

text \<open>
  Claim C1. Every Position of a Motion Series whose coordinates are doubles lies inside
  the padded View Window that the code computes. The window is
  \<open>[xmin - padding, xmax + padding]\<close> by \<open>[ymin - padding, ymax + padding]\<close>, with the
  minima and maxima taken over all joints and steps and
  \<open>padding = 0.2 * max (xmax - xmin) (ymax - ymin)\<close>, each operation being the one of
  the program's numbers, and each coordinate of the Position compares \<open><=\<close> with the
  upper end of its range and \<open>>=\<close> with the lower end.
\<close>

theorem padded_window_contains_positions:
  assumes "doubles d" "q \<in> positions d"
  shows "xRange (compute_bounds d) =
           (jsub (Fin (spec_xmin d)) (spec_padding d), jadd (Fin (spec_xmax d)) (spec_padding d))
       \<and> yRange (compute_bounds d) =
           (jsub (Fin (spec_ymin d)) (spec_padding d), jadd (Fin (spec_ymax d)) (spec_padding d))
       \<and> jle (jsub (Fin (spec_xmin d)) (spec_padding d)) (Fin (fst q))
       \<and> jle (Fin (fst q)) (jadd (Fin (spec_xmax d)) (spec_padding d))
       \<and> jle (jsub (Fin (spec_ymin d)) (spec_padding d)) (Fin (snd q))
       \<and> jle (Fin (snd q)) (jadd (Fin (spec_ymax d)) (spec_padding d))"
proof -
  from assms(2) have ne: "positions d \<noteq> {}" by auto
  from assms have dq: "is_double (fst q)" "is_double (snd q)" by (auto simp: doubles_def)
  note pad = spec_padding_nonneg [OF ne]
  from spec_x_bounds [OF assms(2)] spec_y_bounds [OF assms(2)]
  have b: "spec_xmin d - 0 \<le> fst q" "fst q \<le> spec_xmax d + 0"
    "spec_ymin d - 0 \<le> snd q" "snd q \<le> spec_ymax d + 0"
    by simp_all
  from bounds_fields(6,7) [OF ne]
    jsub_below [OF pad b(1) dq(1)] jadd_above [OF pad b(2) dq(1)]
    jsub_below [OF pad b(3) dq(2)] jadd_above [OF pad b(4) dq(2)]
  show ?thesis by (simp add: spec_padded_x_def spec_padded_y_def)
qed

theorem padded_window_contains_positions_witness:
  "doubles example_series \<and> (-1, 1) \<in> positions example_series
   \<and> xRange (compute_bounds example_series) = (lit (- 1.4), lit 1.4)
   \<and> yRange (compute_bounds example_series) = (lit (- 0.4), lit 1.4)
   \<and> jle (jsub (Fin (- 1)) (spec_padding example_series)) (Fin (- 1))
   \<and> jle (Fin 1) (jadd (Fin 1) (spec_padding example_series))"
proof -
  have q: "(-1, 1) \<in> positions example_series" by (simp add: example_positions)
  from padded_window_contains_positions [OF example_doubles q] example_doubles q
  show ?thesis
    by (simp add: example_spec_values example_bounds lit_def rd_lit_14 rd_lit_neg_14
        rd_lit_neg_04)
qed

text \<open>
  Claim C2. The Bounds Estimator of the code follows the algorithm of section 4.1: the
  four extremes are the minima and maxima of all coordinates, the padding is
  \<open>0.2 * max (xmax - xmin) (ymax - ymin)\<close>, and the two ranges are the extremes
  widened by the padding, each operation being the one of the program's numbers. For
  the two-pose example the padded x-range is the pair of doubles written \<open>-1.4\<close> and
  \<open>1.4\<close>, and the padded y-range the pair written \<open>-0.4\<close> and \<open>1.4\<close>.
\<close>

theorem bounds_estimator_padded_window:
  "(positions d \<noteq> {} \<longrightarrow>
      xmin (compute_bounds d) = Fin (spec_xmin d) \<and> xmax (compute_bounds d) = Fin (spec_xmax d)
    \<and> ymin (compute_bounds d) = Fin (spec_ymin d) \<and> ymax (compute_bounds d) = Fin (spec_ymax d)
    \<and> padding (compute_bounds d) =
        jmul (lit 0.2) (Math_max2 (jsub (Fin (spec_xmax d)) (Fin (spec_xmin d)))
                                  (jsub (Fin (spec_ymax d)) (Fin (spec_ymin d))))
    \<and> xRange (compute_bounds d) =
        (jsub (Fin (spec_xmin d)) (padding (compute_bounds d)),
         jadd (Fin (spec_xmax d)) (padding (compute_bounds d)))
    \<and> yRange (compute_bounds d) =
        (jsub (Fin (spec_ymin d)) (padding (compute_bounds d)),
         jadd (Fin (spec_ymax d)) (padding (compute_bounds d))))
   \<and> xRange (compute_bounds example_series) = (lit (- 1.4), lit 1.4)
   \<and> yRange (compute_bounds example_series) = (lit (- 0.4), lit 1.4)"
proof -
  have "xRange (compute_bounds example_series) = (lit (- 1.4), lit 1.4)"
    by (simp add: example_bounds lit_def rd_lit_14 rd_lit_neg_14)
  moreover have "yRange (compute_bounds example_series) = (lit (- 0.4), lit 1.4)"
    by (simp add: example_bounds lit_def rd_lit_14 rd_lit_neg_04)
  ultimately show ?thesis
    using bounds_fields [of d]
    by (simp add: spec_padding_def spec_span0_def spec_padded_x_def spec_padded_y_def)
qed

theorem bounds_estimator_padded_window_witness:
  "positions example_series \<noteq> {}
   \<and> padding (compute_bounds example_series) = jmul (lit 0.2) (Fin 2)
   \<and> padding (compute_bounds example_series) = Fin (3602879701896397 / 9007199254740992)
   \<and> xRange (compute_bounds example_series) =
       (Fin (- (3152519739159347 / 2251799813685248)), Fin (3152519739159347 / 2251799813685248))"
proof -
  have ne: "positions example_series \<noteq> {}" by (simp add: example_positions)
  from bounds_estimator_padded_window [of example_series] ne show ?thesis
    by (simp add: example_spec_values example_bounds jsub_def rd_1 rd_2 round_double_0)
qed

subsection \<open>Frame Sequence, initial render, degenerate responses, playback\<close>

text \<open>
  Claim C3. For a Motion Series of length \<open>n\<close> the frame loop ends without an
  exception and leaves exactly \<open>n\<close> Frames, Frame \<open>i\<close> being the one built at index
  \<open>i\<close>. The first trace of Frame \<open>i\<close>, the linkage polyline, has exactly the five
  points \<open>A\<close>, \<open>B\<close>, \<open>C\<close>, \<open>D\<close>, \<open>A\<close> of Pose \<open>i\<close> in this order, so its first and
  its last point are both the \<open>A\<close>-position of Pose \<open>i\<close>.
\<close>

theorem frame_sequence_linkage:
  assumes "motion_series d n"
  shows "\<exists>s. assemble d = Inr s \<and> length (frames s) = n \<and>
           (\<forall>i<n. frame_at d i = Inr (frames s ! i)
                \<and> polyline (data (frames s ! i) ! 0)
                    = [A d ! i, B d ! i, C d ! i, D d ! i, A d ! i]
                \<and> length (polyline (data (frames s ! i) ! 0)) = 5
                \<and> hd (polyline (data (frames s ! i) ! 0)) = A d ! i
                \<and> last (polyline (data (frames s ! i) ! 0)) = A d ! i)"
proof -
  let ?s = "\<lparr>solver = d, frames = map (\<lambda>j. projr (frame_at d j)) [0..<n]\<rparr>"
  have run: "assemble d = Inr ?s" by (rule assemble_motion_series [OF assms])
  have len: "length (frames ?s) = n" by simp
  have each: "frame_at d i = Inr (frames ?s ! i)
       \<and> polyline (data (frames ?s ! i) ! 0) = [A d ! i, B d ! i, C d ! i, D d ! i, A d ! i]
       \<and> length (polyline (data (frames ?s ! i) ! 0)) = 5
       \<and> hd (polyline (data (frames ?s ! i) ! 0)) = A d ! i
       \<and> last (polyline (data (frames ?s ! i) ! 0)) = A d ! i" if "i < n" for i
  proof -
    from frame_at_Inr [OF assms that] have "frame_at d i = Inr (projr (frame_at d i))" by auto
    moreover have "polyline (data (projr (frame_at d i)) ! 0)
        = [A d ! i, B d ! i, C d ! i, D d ! i, A d ! i]"
      by (simp add: frame_at_motion_series(1) [OF assms that] polyline_def)
    ultimately show ?thesis using that by simp
  qed
  from run len each show ?thesis by blast
qed

theorem frame_sequence_linkage_witness:
  "motion_series example_series 2 \<and>
   (\<exists>s. assemble example_series = Inr s \<and> length (frames s) = 2
      \<and> polyline (data (frames s ! 0) ! 0) = [(0, 0), (1, 0), (1, 1), (0, 1), (0, 0)]
      \<and> polyline (data (frames s ! 1) ! 0) = [(0, 0), (0, 1), (-1, 1), (-1, 0), (0, 0)])"
proof -
  from frame_sequence_linkage [OF example_motion_series]
  obtain s where s: "assemble example_series = Inr s" "length (frames s) = 2"
    and each: "\<And>i. i < 2 \<Longrightarrow> polyline (data (frames s ! i) ! 0)
        = [A example_series ! i, B example_series ! i, C example_series ! i,
           D example_series ! i, A example_series ! i]"
    by blast
  from each [of 0] each [of 1] s example_motion_series show ?thesis
    by (simp add: example_series_def)
qed

text \<open>
  Claim C4. For a Motion Series of length \<open>n\<close> and every index \<open>i < n\<close>, the third
  trace of Frame \<open>i\<close>, the workspace trail, has exactly \<open>i + 1\<close> points and is the
  prefix of the positions of joint \<open>C\<close> from step \<open>0\<close> through step \<open>i\<close>, in order. For
  \<open>i \<ge> 1\<close> it is the trail of Frame \<open>i - 1\<close> with the position of \<open>C\<close> at step \<open>i\<close>
  added at the end, and the trail of Frame \<open>0\<close> is the single position of \<open>C\<close> at
  step \<open>0\<close>.
\<close>

theorem trace_is_prefix_of_C:
  assumes "motion_series d n"
  shows "\<exists>s. assemble d = Inr s \<and>
           (\<forall>i<n. polyline (data (frames s ! i) ! 2) = take (i + 1) (C d)
                \<and> length (polyline (data (frames s ! i) ! 2)) = i + 1) \<and>
           (\<forall>i<n. 0 < i \<longrightarrow>
                polyline (data (frames s ! i) ! 2)
                  = polyline (data (frames s ! (i - 1)) ! 2) @ [C d ! i]) \<and>
           (0 < n \<longrightarrow> polyline (data (frames s ! 0) ! 2) = [C d ! 0])"
proof -
  let ?s = "\<lparr>solver = d, frames = map (\<lambda>j. projr (frame_at d j)) [0..<n]\<rparr>"
  have run: "assemble d = Inr ?s" by (rule assemble_motion_series [OF assms])
  from assms have lenC: "length (C d) = n" by (simp add: motion_series_def)
  have tr: "polyline (data (frames ?s ! i) ! 2) = take (Suc i) (C d)" if "i < n" for i
    using frame_at_motion_series(2) [OF assms that] that by simp
  have a: "\<forall>i<n. polyline (data (frames ?s ! i) ! 2) = take (i + 1) (C d)
                \<and> length (polyline (data (frames ?s ! i) ! 2)) = i + 1"
    using tr lenC by auto
  have b: "\<forall>i<n. 0 < i \<longrightarrow> polyline (data (frames ?s ! i) ! 2)
                  = polyline (data (frames ?s ! (i - 1)) ! 2) @ [C d ! i]"
  proof (intro allI impI)
    fix i assume i: "i < n" "0 < i"
    then obtain k where k: "i = Suc k" by (cases i) auto
    with i have "k < n" by simp
    from tr [OF i(1)] tr [OF this] k i lenC show "polyline (data (frames ?s ! i) ! 2)
                  = polyline (data (frames ?s ! (i - 1)) ! 2) @ [C d ! i]"
      by (simp add: take_Suc_conv_app_nth)
  qed
  have c: "0 < n \<longrightarrow> polyline (data (frames ?s ! 0) ! 2) = [C d ! 0]"
  proof
    assume n: "0 < n"
    with lenC have "take (Suc 0) (C d) = [C d ! 0]" by (cases "C d") auto
    with tr [OF n] show "polyline (data (frames ?s ! 0) ! 2) = [C d ! 0]" by simp
  qed
  from run a b c show ?thesis by blast
qed

theorem trace_is_prefix_of_C_witness:
  "motion_series example_series 2 \<and>
   (\<exists>s. assemble example_series = Inr s
      \<and> polyline (data (frames s ! 0) ! 2) = [(1, 1)]
      \<and> polyline (data (frames s ! 1) ! 2) = [(1, 1), (-1, 1)])"
proof -
  from trace_is_prefix_of_C [OF example_motion_series]
  obtain s where s: "assemble example_series = Inr s"
    and each: "\<And>i. i < 2 \<Longrightarrow> polyline (data (frames s ! i) ! 2) = take (i + 1) (C example_series)"
    by blast
  from each [of 0] each [of 1] s example_motion_series show ?thesis
    by (simp add: example_series_def)
qed

text \<open>
  Claim C5. Frame building is a pure function of the index and the Motion Series. A run
  of the frame loop that ends normally leaves the response as it was, keeps the Frames
  already in the array, and adds for each remaining index \<open>j\<close> the Frame that
  \<open>frame_at\<close> gives for \<open>j\<close> and the response alone. So assembling the Frame Sequence
  again, from the response as the first assembly left it, gives the identical sequence.
\<close>

theorem frame_building_pure:
  "(frames_loop i s = Inr s' \<longrightarrow>
      solver s' = solver s \<and>
      frames s' = frames s @ map (\<lambda>j. projr (frame_at (solver s) j)) [i..<length (A (solver s))])
   \<and> (assemble d = Inr t \<longrightarrow>
      solver t = d \<and> frames t = map (\<lambda>j. projr (frame_at d j)) [0..<length (A d)]
      \<and> assemble (solver t) = Inr t)"
proof (intro conjI impI)
  assume "frames_loop i s = Inr s'"
  from frames_loop_Inr [OF this]
  show "solver s' = solver s"
    and "frames s' = frames s @ map (\<lambda>j. projr (frame_at (solver s) j)) [i..<length (A (solver s))]"
    by simp_all
next
  assume t: "assemble d = Inr t"
  then have "frames_loop 0 \<lparr>solver = d, frames = []\<rparr> = Inr t" by (simp add: assemble_def)
  from frames_loop_Inr [OF this]
  show "solver t = d" and "frames t = map (\<lambda>j. projr (frame_at d j)) [0..<length (A d)]"
    by simp_all
  with t show "assemble (solver t) = Inr t" by simp
qed

theorem frame_building_pure_witness:
  "\<exists>t. frames_loop 0 \<lparr>solver = example_series, frames = []\<rparr> = Inr t
      \<and> assemble example_series = Inr t \<and> solver t = example_series
      \<and> frames t = map (\<lambda>j. projr (frame_at example_series j)) [0..<2]
      \<and> assemble (solver t) = Inr t"
proof -
  from assemble_motion_series [OF example_motion_series]
  obtain t where t: "assemble example_series = Inr t" by simp
  then have l: "frames_loop 0 \<lparr>solver = example_series, frames = []\<rparr> = Inr t"
    by (simp add: assemble_def)
  have "length (A example_series) = 2" by (simp add: example_series_def)
  with frame_building_pure [of 0 "\<lparr>solver = example_series, frames = []\<rparr>" t example_series t] t l
  have "solver t = example_series
      \<and> frames t = map (\<lambda>j. projr (frame_at example_series j)) [0..<2]
      \<and> assemble (solver t) = Inr t"
    by simp
  with t l show ?thesis by blast
qed

lemma motion_series_positions:
  assumes "motion_series d n" "0 < n"
  shows "positions d \<noteq> {}"
proof -
  from assms have "A d \<noteq> []" by (auto simp: motion_series_def)
  then show ?thesis by (auto simp: positions_def)
qed

lemma initial_plot_ranges:
  assumes "positions d \<noteq> {}" "fs \<noteq> []"
  shows "\<exists>p. initial_plot (compute_bounds d) fs = Inr p
           \<and> plot_data p = data (fs ! 0)
           \<and> axis_range (xaxis (plot_layout p))
               = (jsub (fst (spec_center d)) (spec_half_span d),
                  jadd (fst (spec_center d)) (spec_half_span d))
           \<and> axis_range (yaxis (plot_layout p))
               = (jsub (snd (spec_center d)) (spec_half_span d),
                  jadd (snd (spec_center d)) (spec_half_span d))
           \<and> scaleanchor (xaxis (plot_layout p)) = Some ''y''"
  using assms bounds_fields(1-4) [OF assms(1)]
  by (simp add: initial_plot_def Let_def at_index_def spec_center_def spec_half_span_def
      spec_span0_def jmul_commute)

lemma runAnimation_motion_series:
  assumes "motion_series d n" "0 < n"
  shows "\<exists>p. runAnimation d = Inr (p, playback_after (map (\<lambda>j. projr (frame_at d j)) [0..<n]) 0)
           \<and> initial_plot (compute_bounds d) (map (\<lambda>j. projr (frame_at d j)) [0..<n]) = Inr p"
proof -
  let ?fs = "map (\<lambda>j. projr (frame_at d j)) [0..<n]"
  from assms(2) have "?fs \<noteq> []" by simp
  from initial_plot_ranges [OF motion_series_positions [OF assms] this]
  obtain p where "initial_plot (compute_bounds d) ?fs = Inr p" by blast
  then show ?thesis
    by (simp add: runAnimation_def after_bounds_def assemble_motion_series [OF assms(1)])
qed

lemma display_ranges:
  assumes "motion_series d n" "0 < n"
  shows "\<exists>p pl. runAnimation d = Inr (p, pl)
           \<and> axis_range (xaxis (plot_layout p))
               = (jsub (fst (spec_center d)) (spec_half_span d),
                  jadd (fst (spec_center d)) (spec_half_span d))
           \<and> axis_range (yaxis (plot_layout p))
               = (jsub (snd (spec_center d)) (spec_half_span d),
                  jadd (snd (spec_center d)) (spec_half_span d))
           \<and> scaleanchor (xaxis (plot_layout p)) = Some ''y''"
proof -
  let ?fs = "map (\<lambda>j. projr (frame_at d j)) [0..<n]"
  from runAnimation_motion_series [OF assms]
  obtain p where p: "runAnimation d = Inr (p, playback_after ?fs 0)"
    "initial_plot (compute_bounds d) ?fs = Inr p" by blast
  from assms(2) have "?fs \<noteq> []" by simp
  from initial_plot_ranges [OF motion_series_positions [OF assms] this] p show ?thesis
    by auto
qed

lemma shown_ranges_motion_series:
  assumes "motion_series d n" "0 < n"
  shows "shown_ranges (runAnimation d) =
           Some ((jsub (fst (spec_center d)) (spec_half_span d),
                  jadd (fst (spec_center d)) (spec_half_span d)),
                 (jsub (snd (spec_center d)) (spec_half_span d),
                  jadd (snd (spec_center d)) (spec_half_span d)))"
  using display_ranges [OF assms] by (auto simp: shown_ranges_def)

lemma example_display:
  "spec_center example_series = (Fin 0, Fin (1 / 2))"
  "spec_half_span example_series = Fin (5404319552844595 / 4503599627370496)"
  by (simp_all add: spec_center_def spec_half_span_def spec_span0_def example_spec_values
      jsub_def lit_05 lit_06 round_double_0 rd_1 rd_2 rd_half rd_c12)

text \<open>
  Claim C6. For a Motion Series of length at least one, the window passed to the initial
  render has the centre \<open>(cx, cy)\<close>, the midpoint of \<open>xmin\<close> and \<open>xmax\<close> and the
  midpoint of \<open>ymin\<close> and \<open>ymax\<close>, and the half-span \<open>0.6 * span0\<close> with
  \<open>span0 = max (xmax - xmin) (ymax - ymin)\<close>, each operation being the one of the
  program's numbers: the x-axis range is \<open>[cx - half-span, cx + half-span]\<close>, the y-axis
  range is \<open>[cy - half-span, cy + half-span]\<close>, with the same half-span, and the x-axis
  carries the equal-scale constraint \<open>scaleanchor: "y"\<close>.
\<close>

theorem initial_render_window:
  assumes "motion_series d n" "0 < n"
  shows "\<exists>p pl. runAnimation d = Inr (p, pl)
           \<and> axis_range (xaxis (plot_layout p))
               = (jsub (fst (spec_center d)) (spec_half_span d),
                  jadd (fst (spec_center d)) (spec_half_span d))
           \<and> axis_range (yaxis (plot_layout p))
               = (jsub (snd (spec_center d)) (spec_half_span d),
                  jadd (snd (spec_center d)) (spec_half_span d))
           \<and> scaleanchor (xaxis (plot_layout p)) = Some ''y''"
  by (rule display_ranges [OF assms])

theorem initial_render_window_witness:
  "motion_series example_series 2 \<and>
   (\<exists>p pl. runAnimation example_series = Inr (p, pl)
      \<and> axis_range (xaxis (plot_layout p)) = (lit (- 1.2), lit 1.2)
      \<and> axis_range (yaxis (plot_layout p)) = (lit (- 0.7), lit 1.7)
      \<and> scaleanchor (xaxis (plot_layout p)) = Some ''y'')"
proof -
  have "(0::nat) < 2" by simp
  from initial_render_window [OF example_motion_series this] example_motion_series show ?thesis
    by (simp add: example_display jsub_def lit_def rd_c12 rd_neg_c12 rd_half_minus_c12
        rd_half_plus_c12 rd_lit_12 rd_lit_neg_12 rd_lit_neg_07 rd_lit_17)
qed

text \<open>
  Claim C7, as stated, fails on the empty response: no check rejects it, the frame loop
  runs (zero times) and returns normally with an empty Frame Sequence.
\<close>

theorem empty_series_is_assembled:
  "motion_series empty_series 0
   \<and> assemble empty_series = Inr \<lparr>solver = empty_series, frames = []\<rparr>"
  by (simp add: motion_series_def empty_series_def assemble_def frames_loop.simps)

text \<open>
  Claim C7, amended. An empty Motion Series is not rejected before Frame Sequence
  Assembly: the assembly returns an empty Frame Sequence, and the run then ends with the
  \<open>TypeError\<close> of reading \<open>frames[0].data\<close>, before any call to the render target.
\<close>

theorem empty_series_outcome:
  assumes "motion_series d 0"
  shows "assemble d = Inr \<lparr>solver = d, frames = []\<rparr> \<and> runAnimation d = Inl TypeError"
proof -
  from assemble_motion_series [OF assms] have a: "assemble d = Inr \<lparr>solver = d, frames = []\<rparr>"
    by simp
  then have "runAnimation d = Inl TypeError"
    by (simp add: runAnimation_def after_bounds_def initial_plot_def at_index_def Let_def)
  with a show ?thesis by simp
qed

theorem empty_series_outcome_witness:
  "motion_series empty_series 0 \<and> runAnimation empty_series = Inl TypeError
   \<and> xRange (compute_bounds empty_series) = (PInf, NInf)"
proof -
  have m: "motion_series empty_series 0" by (simp add: motion_series_def empty_series_def)
  have "xRange (compute_bounds empty_series) = (PInf, NInf)"
    by (simp add: compute_bounds_def empty_series_def allX_def allY_def Math_min_def
        Math_max_def jsub_def Let_def lit_02)
  with empty_series_outcome [OF m] m show ?thesis by simp
qed

lemma coincident_motion_series: "motion_series coincident_series 1"
  by (simp add: motion_series_def coincident_series_def)

lemma coincident_positions: "positions coincident_series = {(1, 1)}"
  by (simp add: positions_def coincident_series_def)

lemma coincident_doubles: "doubles coincident_series"
  by (simp add: doubles_def coincident_positions is_double_def rd_1)

text \<open>
  Claim C8, as stated, fails on a single Pose whose four joints are all at \<open>(1, 1)\<close>:
  the padding is \<open>0\<close>, both padded ranges are \<open>[1, 1]\<close>, and both axis ranges of the
  initial plot are \<open>[1, 1]\<close>. No minimum span is applied.
\<close>

theorem coincident_window_has_no_area:
  "motion_series coincident_series 1
   \<and> positions coincident_series = {(1, 1)}
   \<and> padding (compute_bounds coincident_series) = Fin 0
   \<and> xRange (compute_bounds coincident_series) = (Fin 1, Fin 1)
   \<and> yRange (compute_bounds coincident_series) = (Fin 1, Fin 1)
   \<and> shown_ranges (runAnimation coincident_series) = Some ((Fin 1, Fin 1), (Fin 1, Fin 1))"
proof -
  have b: "compute_bounds coincident_series =
      \<lparr>xmin = Fin 1, xmax = Fin 1, ymin = Fin 1, ymax = Fin 1, padding = Fin 0,
       xRange = (Fin 1, Fin 1), yRange = (Fin 1, Fin 1)\<rparr>"
    by (simp add: compute_bounds_def coincident_series_def allX_def allY_def Math_min_def
        Math_max_def jsub_def Let_def lit_02 round_double_0 rd_1)
  have "shown_ranges (runAnimation coincident_series) = Some ((Fin 1, Fin 1), (Fin 1, Fin 1))"
    by (simp add: runAnimation_def after_bounds_def b
        assemble_motion_series [OF coincident_motion_series]
        initial_plot_def at_index_def jsub_def Let_def shown_ranges_def lit_05 lit_06
        round_double_0 rd_1 rd_2)
  with b coincident_motion_series coincident_positions show ?thesis by simp
qed

text \<open>
  Claim C8, amended. When all positions of a Motion Series of doubles, of length at
  least one, coincide in a point \<open>q\<close>, the padding is \<open>0\<close> and the padded View Window is
  the single point \<open>q\<close>. The window passed to the initial render has no area either:
  the two ends of its x-range are the same number, \<open>0.5 * (q.x + q.x) + 0\<close> as the
  program computes it (\<open>Infinity\<close> when the sum overflows), and likewise for y.
\<close>

theorem coincident_window_collapses:
  assumes "motion_series d n" "0 < n" "doubles d" "positions d = {q}"
  shows "padding (compute_bounds d) = Fin 0
       \<and> xRange (compute_bounds d) = (Fin (fst q), Fin (fst q))
       \<and> yRange (compute_bounds d) = (Fin (snd q), Fin (snd q))
       \<and> shown_ranges (runAnimation d)
           = Some ((jadd (jmul (lit 0.5) (jadd (Fin (fst q)) (Fin (fst q)))) (Fin 0),
                    jadd (jmul (lit 0.5) (jadd (Fin (fst q)) (Fin (fst q)))) (Fin 0)),
                   (jadd (jmul (lit 0.5) (jadd (Fin (snd q)) (Fin (snd q)))) (Fin 0),
                    jadd (jmul (lit 0.5) (jadd (Fin (snd q)) (Fin (snd q)))) (Fin 0)))"
proof -
  from assms(4) have ne: "positions d \<noteq> {}" by simp
  from assms(3,4) have dq: "round_double (fst q) = Fin (fst q)" "round_double (snd q) = Fin (snd q)"
    by (simp_all add: doubles_def is_double_def)
  from assms(4) have v: "spec_xmin d = fst q" "spec_xmax d = fst q"
      "spec_ymin d = snd q" "spec_ymax d = snd q"
    by (simp_all add: spec_xmin_def spec_xmax_def spec_ymin_def spec_ymax_def)
  have z: "spec_span0 d = Fin 0" by (simp add: spec_span0_def v jsub_Fin round_double_0)
  have pad: "spec_padding d = Fin 0" by (simp add: spec_padding_def z lit_02 round_double_0)
  have h: "spec_half_span d = Fin 0" by (simp add: spec_half_span_def z lit_06 round_double_0)
  from shown_ranges_motion_series [OF assms(1,2)]
  have "shown_ranges (runAnimation d)
           = Some ((jadd (jmul (lit 0.5) (jadd (Fin (fst q)) (Fin (fst q)))) (Fin 0),
                    jadd (jmul (lit 0.5) (jadd (Fin (fst q)) (Fin (fst q)))) (Fin 0)),
                   (jadd (jmul (lit 0.5) (jadd (Fin (snd q)) (Fin (snd q)))) (Fin 0),
                    jadd (jmul (lit 0.5) (jadd (Fin (snd q)) (Fin (snd q)))) (Fin 0)))"
    by (simp add: spec_center_def v h jsub_def)
  with bounds_fields(5-7) [OF ne] show ?thesis
    by (simp add: spec_padded_x_def spec_padded_y_def pad jsub_Fin v dq)
qed

theorem coincident_window_collapses_witness:
  "motion_series coincident_series 1 \<and> doubles coincident_series
   \<and> positions coincident_series = {(1, 1)}
   \<and> xRange (compute_bounds coincident_series) = (Fin 1, Fin 1)
   \<and> shown_ranges (runAnimation coincident_series) = Some ((Fin 1, Fin 1), (Fin 1, Fin 1))"
proof -
  have "(0::nat) < 1" by simp
  from coincident_window_collapses
      [OF coincident_motion_series this coincident_doubles coincident_positions]
    coincident_motion_series coincident_doubles coincident_positions
  show ?thesis by (simp add: lit_05 rd_1 rd_2)
qed

lemma playback_after_state:
  "playback_after fs k = \<lparr>issued = replicate (Suc k) (animate_request fs), in_flight = 1\<rparr>"
proof (induction k)
  case 0
  show ?case by (simp add: animateLoop_def)
next
  case (Suc k)
  then show ?case
    by (simp add: then_callback_def animateLoop_def pass_fulfilled_def replicate_append_same)
qed

text \<open>
  Claim C9. After the first call of \<open>animateLoop\<close> and any number \<open>k\<close> of fulfilled
  passes, exactly \<open>k + 1\<close> requests have been issued, all of them the same: the Frame
  Sequence in its order, frame duration \<open>40\<close>, redraw forced, transition duration \<open>0\<close>.
  Exactly one pass is in flight; when it is fulfilled none is, and the callback then
  issues exactly one new request. This holds for every \<open>k\<close>: the loop has no state in
  which it stops. A pass of the render target shows the Frames of its request from the
  first to the last, each held for \<open>40\<close>.
\<close>

theorem playback_loop:
  "issued (playback_after fs k) = replicate (k + 1) (animate_request fs)
   \<and> in_flight (playback_after fs k) = 1
   \<and> in_flight (pass_fulfilled (playback_after fs k)) = 0
   \<and> issued (playback_after fs (k + 1)) = issued (playback_after fs k) @ [animate_request fs]
   \<and> anim_frames (animate_request fs) = fs
   \<and> frame_duration (anim_opts (animate_request fs)) = 40
   \<and> frame_redraw (anim_opts (animate_request fs))
   \<and> transition_duration (anim_opts (animate_request fs)) = 0
   \<and> pass_presentation (animate_request fs) = map (\<lambda>f. (f, 40)) fs"
  by (simp add: playback_after_state pass_fulfilled_def replicate_append_same)
     (simp add: animate_request_def pass_presentation_def)



subsection \<open>Where the initial render misses a Position\<close>











subsection \<open>The error of one rounding\<close>







subsection \<open>The initial render contains the Positions\<close>





end
